theory Spec2Isabelle
  imports Complex_Main "HOL-Library.Sublist"
begin

section \<open>Data model of the news summarizer\<close>

text \<open>
  The summarizer (\<^verbatim>\<open>summarizer.py\<close>) works on article dictionaries with the six keys
  \<^verbatim>\<open>title\<close>, \<^verbatim>\<open>description\<close>, \<^verbatim>\<open>content\<close>, \<^verbatim>\<open>url\<close>, \<^verbatim>\<open>source\<close> and \<^verbatim>\<open>published_at\<close>, all
  strings, and returns result dictionaries with the keys \<^verbatim>\<open>title\<close>, \<^verbatim>\<open>source\<close>, \<^verbatim>\<open>url\<close>,
  \<^verbatim>\<open>summary\<close>, \<^verbatim>\<open>sentiment\<close> and \<^verbatim>\<open>published_at\<close>. Both are records here; the fields of
  the article are written qualified (\<open>article.title\<close>), those of the result unqualified.
  A dictionary that lacks one of the keys, or whose content is not a string, makes
  \<^verbatim>\<open>summarize_article\<close> raise before its first request; the record type has no such value.
\<close>

record article =
  title :: string
  description :: string
  content :: string
  url :: string
  source :: string
  published_at :: string

record summary_result =
  title :: string
  source :: string
  url :: string
  summary :: string
  sentiment :: string
  published_at :: string

text \<open>
  A provider call raises a Python exception derived from \<^verbatim>\<open>Exception\<close> or returns text.
  Interrupts (\<^verbatim>\<open>KeyboardInterrupt\<close>, \<^verbatim>\<open>SystemExit\<close>), which \<^verbatim>\<open>except Exception\<close> does not
  catch, are not part of the model.
\<close>

datatype exn = Exception string

text \<open>
  The class \<^verbatim>\<open>LLMProviders\<close> is imported by \<^verbatim>\<open>summarizer.py\<close> and is not part of the
  sources at hand, so its two methods are parameters of the model. A call takes the prompt and
  the state of everything the providers share (cost log, rate limiter, the remote services),
  of an arbitrary type \<open>'w\<close>, and returns the text or the exception raised, with the new state.
\<close>

type_synonym 'w ask = "string \<Rightarrow> 'w \<Rightarrow> (exn + string) \<times> 'w"

record 'w llm_providers =
  ask_openai :: "'w ask"
  ask_cohere :: "'w ask"


section \<open>The pipeline for one article\<close>

text \<open>The three f-strings of \<^verbatim>\<open>summarize_article\<close>; \<^verbatim>\<open>content[:500]\<close> is \<open>take 500\<close>.\<close>

definition article_text :: "article \<Rightarrow> string" where
  "article_text article =
     ''Title: '' @ article.title article @ [CHR 0x0A] @
     ''Description: '' @ description article @ [CHR 0x0A] @
     ''Content: '' @ take 500 (content article)"

definition summary_prompt :: "article \<Rightarrow> string" where
  "summary_prompt article =
     ''Summarize this news article in 2-3 sentences:'' @ [CHR 0x0A, CHR 0x0A] @
     article_text article"

definition sentiment_prompt :: "string \<Rightarrow> string" where
  "sentiment_prompt summary_text =
     ''Analyze the sentiment of this text: '' @ [CHR 0x22] @ summary_text @ [CHR 0x22] @
     [CHR 0x0A, CHR 0x0A] @
     ''Provide:'' @ [CHR 0x0A] @
     ''- Overall sentiment (positive/negative/neutral)'' @ [CHR 0x0A] @
     ''- Confidence (0-100%)'' @ [CHR 0x0A] @
     ''- Key emotional tone'' @ [CHR 0x0A, CHR 0x0A] @
     ''Be concise (2-3 sentences).''"

text \<open>
  \<^verbatim>\<open>summarize_article\<close>: the first \<^verbatim>\<open>try\<close> asks OpenAI and, in its \<^verbatim>\<open>except\<close> branch, Cohere
  with the same \<^verbatim>\<open>summary_prompt\<close>; an exception of that second call is not caught and leaves
  the function. The second \<^verbatim>\<open>try\<close> asks Cohere for the sentiment and replaces any exception
  by a fixed string. The calls to \<^verbatim>\<open>print\<close> are left out; the local variables \<^verbatim>\<open>summary\<close>
  and \<^verbatim>\<open>sentiment\<close> are \<open>summary_text\<close> and \<open>sentiment_text\<close>, the plain names being the
  fields of the result.
\<close>

definition summarize_article ::
  "'w llm_providers \<Rightarrow> article \<Rightarrow> 'w \<Rightarrow> (exn + summary_result) \<times> 'w" where
  "summarize_article llm article w =
     (case (case ask_openai llm (summary_prompt article) w of
              (Inr summary_text, w1) \<Rightarrow> (Inr summary_text, w1)
            | (Inl e, w1) \<Rightarrow> ask_cohere llm (summary_prompt article) w1) of
        (Inl e, w2) \<Rightarrow> (Inl e, w2)
      | (Inr summary_text, w2) \<Rightarrow>
          (case ask_cohere llm (sentiment_prompt summary_text) w2 of
             (answer, w3) \<Rightarrow>
               (Inr \<lparr>title = article.title article,
                     source = article.source article,
                     url = article.url article,
                     summary = summary_text,
                     sentiment = (case answer of
                                    Inr sentiment_text \<Rightarrow> sentiment_text
                                  | Inl e \<Rightarrow> ''Unable to analyze sentiment''),
                     published_at = article.published_at article\<rparr>, w3)))"


text \<open>
  The call as its caller sees it. The article dictionary is passed by reference;
  \<^verbatim>\<open>summarize_article\<close> has no assignment to it or to one of its entries and hands only
  strings built from it to the providers, so the object holds after the call what it held
  before. The second component is the article after the call.
\<close>

definition summarize_article_call ::
  "'w llm_providers \<Rightarrow> article \<Rightarrow> 'w \<Rightarrow> (exn + summary_result) \<times> article \<times> 'w" where
  "summarize_article_call llm article w =
     (case summarize_article llm article w of (outcome, w') \<Rightarrow> (outcome, article, w'))"


section \<open>Sequential batch\<close>

text \<open>
  \<^verbatim>\<open>process_articles\<close>: the loop over the articles with its accumulator \<^verbatim>\<open>results\<close>; an
  exception of \<^verbatim>\<open>summarize_article\<close> is caught and the loop goes on.
\<close>

fun process_articles_loop ::
  "'w llm_providers \<Rightarrow> article list \<Rightarrow> summary_result list \<Rightarrow> 'w \<Rightarrow> summary_result list \<times> 'w" where
  "process_articles_loop llm [] results w = (results, w)"
| "process_articles_loop llm (article # articles) results w =
     (case summarize_article llm article w of
        (Inr result, w') \<Rightarrow> process_articles_loop llm articles (results @ [result]) w'
      | (Inl e, w') \<Rightarrow> process_articles_loop llm articles results w')"

definition process_articles ::
  "'w llm_providers \<Rightarrow> article list \<Rightarrow> 'w \<Rightarrow> summary_result list \<times> 'w" where
  "process_articles llm articles w = process_articles_loop llm articles [] w"

text \<open>
  For stating the batch properties: the outcome of each article's pipeline, run one after the
  other in input order, and the successful ones among a list of outcomes.
\<close>

fun pipeline_outcomes ::
  "'w llm_providers \<Rightarrow> article list \<Rightarrow> 'w \<Rightarrow> (exn + summary_result) list \<times> 'w" where
  "pipeline_outcomes llm [] w = ([], w)"
| "pipeline_outcomes llm (article # articles) w =
     (case summarize_article llm article w of
        (outcome, w') \<Rightarrow>
          (case pipeline_outcomes llm articles w' of
             (outcomes, w'') \<Rightarrow> (outcome # outcomes, w'')))"

fun successes :: "(exn + 'a) list \<Rightarrow> 'a list" where
  "successes [] = []"
| "successes (Inr r # outcomes) = r # successes outcomes"
| "successes (Inl e # outcomes) = successes outcomes"


section \<open>Concurrent batch\<close>

text \<open>
  \<^verbatim>\<open>process_articles_async\<close> runs \<^verbatim>\<open>summarize_article\<close> for every article in a worker thread
  (\<^verbatim>\<open>asyncio.to_thread\<close>), at most \<^verbatim>\<open>max_concurrent\<close> of them at a time. The threads share the
  providers, so their calls interleave. The model cuts \<^verbatim>\<open>summarize_article\<close> at its provider
  calls: a task waits for the semaphore, or is about to make the first summary request, the
  fallback request or the sentiment request (with the summary it got), or has finished with a
  result or an exception. One step of a task is one provider call, taken as atomic on the
  shared state.
\<close>

datatype phase =
  Waiting
| StageA
| Fallback
| StageB string
| Finished "exn + summary_result"

fun task_step :: "'w llm_providers \<Rightarrow> article \<Rightarrow> phase \<Rightarrow> 'w \<Rightarrow> phase \<times> 'w" where
  "task_step llm article StageA w =
     (case ask_openai llm (summary_prompt article) w of
        (Inr summary_text, w1) \<Rightarrow> (StageB summary_text, w1)
      | (Inl e, w1) \<Rightarrow> (Fallback, w1))"
| "task_step llm article Fallback w =
     (case ask_cohere llm (summary_prompt article) w of
        (Inr summary_text, w1) \<Rightarrow> (StageB summary_text, w1)
      | (Inl e, w1) \<Rightarrow> (Finished (Inl e), w1))"
| "task_step llm article (StageB summary_text) w =
     (case ask_cohere llm (sentiment_prompt summary_text) w of
        (answer, w1) \<Rightarrow>
          (Finished (Inr \<lparr>title = article.title article,
                           source = article.source article,
                           url = article.url article,
                           summary = summary_text,
                           sentiment = (case answer of
                                          Inr sentiment_text \<Rightarrow> sentiment_text
                                        | Inl e \<Rightarrow> ''Unable to analyze sentiment''),
                           published_at = article.published_at article\<rparr>), w1))"
| "task_step llm article Waiting w = (Waiting, w)"
| "task_step llm article (Finished outcome) w = (Finished outcome, w)"

text \<open>
  The provider calls a task may still make, and a task run alone to its end; from its first
  request that is \<^verbatim>\<open>summarize_article\<close> (lemma \<open>task_finish_summarize\<close>).
\<close>

fun remaining_calls :: "phase \<Rightarrow> nat" where
  "remaining_calls Waiting = 3"
| "remaining_calls StageA = 3"
| "remaining_calls Fallback = 2"
| "remaining_calls (StageB summary_text) = 1"
| "remaining_calls (Finished outcome) = 0"

function task_finish ::
  "'w llm_providers \<Rightarrow> article \<Rightarrow> phase \<Rightarrow> 'w \<Rightarrow> (exn + summary_result) \<times> 'w" where
  "task_finish llm article (Finished outcome) w = (outcome, w)"
| "task_finish llm article Waiting w = task_finish llm article StageA w"
| "task_finish llm article StageA w =
     (case task_step llm article StageA w of (p, w') \<Rightarrow> task_finish llm article p w')"
| "task_finish llm article Fallback w =
     (case task_step llm article Fallback w of (p, w') \<Rightarrow> task_finish llm article p w')"
| "task_finish llm article (StageB summary_text) w =
     (case task_step llm article (StageB summary_text) w of
        (p, w') \<Rightarrow> task_finish llm article p w')"
  by pat_completeness auto
termination
  by (relation "measure (\<lambda>(llm, article, p, w). if p = Waiting then 4 else remaining_calls p)")
     (auto split: prod.splits sum.splits)

text \<open>
  The semaphore: a task between its first and its last provider call holds a slot. All tasks
  ask for a slot in input order when \<^verbatim>\<open>gather\<close> starts them, so the waiting ones are served
  first come, first served: \<open>acquire\<close> hands the free slots to the leftmost waiting tasks.
\<close>

fun in_flight :: "phase \<Rightarrow> bool" where
  "in_flight StageA = True"
| "in_flight Fallback = True"
| "in_flight (StageB summary_text) = True"
| "in_flight Waiting = False"
| "in_flight (Finished outcome) = False"

fun acquire :: "nat \<Rightarrow> phase list \<Rightarrow> phase list" where
  "acquire free [] = []"
| "acquire free (Waiting # ps) =
     (if free = 0 then Waiting # ps else StageA # acquire (free - 1) ps)"
| "acquire free (p # ps) = p # acquire free ps"

definition admit :: "nat \<Rightarrow> phase list \<Rightarrow> phase list" where
  "admit max_concurrent ps = acquire (max_concurrent - length (filter in_flight ps)) ps"

definition in_flight_tasks :: "phase list \<Rightarrow> nat list" where
  "in_flight_tasks ps = filter (\<lambda>i. in_flight (ps ! i)) [0..<length ps]"

text \<open>
  Which thread makes the next provider call is not determined by the program. A schedule is a
  list of numbers; the number \<open>k\<close> picks, among the \<open>m\<close> tasks in flight, the one at position
  \<open>k mod m\<close>, so every schedule is a possible run and every interleaving has a schedule.
  The picked index is below the length of the phase list, which is the number of articles.
\<close>

definition sched_step ::
  "nat \<Rightarrow> 'w llm_providers \<Rightarrow> article list \<Rightarrow> nat \<Rightarrow> phase list \<times> 'w \<Rightarrow> phase list \<times> 'w" where
  "sched_step max_concurrent llm articles k cfg =
     (case cfg of
        (ps, w) \<Rightarrow>
          (let ps1 = admit max_concurrent ps; running = in_flight_tasks ps1
           in if running = [] then (ps1, w)
              else (let i = running ! (k mod length running)
                    in case task_step llm (articles ! i) (ps1 ! i) w of
                         (p, w') \<Rightarrow> (ps1[i := p], w'))))"

fun run_schedule ::
  "nat \<Rightarrow> 'w llm_providers \<Rightarrow> article list \<Rightarrow> nat list \<Rightarrow> phase list \<times> 'w \<Rightarrow> phase list \<times> 'w" where
  "run_schedule max_concurrent llm articles [] cfg = cfg"
| "run_schedule max_concurrent llm articles (k # sched) cfg =
     run_schedule max_concurrent llm articles sched
       (sched_step max_concurrent llm articles k cfg)"

text \<open>
  \<^verbatim>\<open>asyncio.gather(*tasks, return_exceptions=True)\<close> completes when every task has, and gives
  the results and exceptions in the order of the tasks; before that there is no value.
\<close>

fun gather :: "phase list \<Rightarrow> (exn + summary_result) list option" where
  "gather [] = Some []"
| "gather (Finished outcome # ps) = map_option ((#) outcome) (gather ps)"
| "gather (p # ps) = None"

definition run_tasks ::
  "nat \<Rightarrow> 'w llm_providers \<Rightarrow> article list \<Rightarrow> nat list \<Rightarrow> 'w \<Rightarrow>
     ((exn + summary_result) list \<times> 'w) option" where
  "run_tasks max_concurrent llm articles sched w =
     (case run_schedule max_concurrent llm articles sched
             (replicate (length articles) Waiting, w) of
        (ps, w') \<Rightarrow> map_option (\<lambda>results. (results, w')) (gather ps))"

text \<open>
  \<^verbatim>\<open>process_articles_async\<close>: \<^verbatim>\<open>asyncio.Semaphore\<close> raises \<^verbatim>\<open>ValueError\<close> for a negative value;
  otherwise the tasks run and the final list comprehension keeps the results that are not
  exceptions. \<open>None\<close> stands for a run that has not returned after the given schedule.
  The default \<^verbatim>\<open>max_concurrent=3\<close> is an explicit argument here.
\<close>

definition process_articles_async ::
  "'w llm_providers \<Rightarrow> article list \<Rightarrow> int \<Rightarrow> nat list \<Rightarrow> 'w \<Rightarrow>
     ((exn + summary_result list) \<times> 'w) option" where
  "process_articles_async llm articles max_concurrent sched w =
     (if max_concurrent < 0
      then Some (Inl (Exception ''Semaphore initial value must be >= 0''), w)
      else map_option (\<lambda>(results, w'). (Inr (successes results), w'))
             (run_tasks (nat max_concurrent) llm articles sched w))"





section \<open>Cost tracker\<close>

text \<open>
  The class \<^verbatim>\<open>CostTracker\<close> is used by the tests (\<^verbatim>\<open>tracker.requests\<close>, \<^verbatim>\<open>tracker.total_cost\<close>,
  \<^verbatim>\<open>track_request\<close>, \<^verbatim>\<open>check_budget\<close>) and defined in a module that is not part of the
  sources at hand, as are the token estimator \<^verbatim>\<open>count_tokens\<close> and the rate limiter.
\<close>

text \<open>
  Modelled from the spec: the priced request (provider name, model name, input and output
  token counts, cost) and the tracker, an append-only log of priced requests with a running
  total. The fields \<open>requests\<close> and \<open>total_cost\<close> have the names the tests read.
\<close>

record priced_request =
  provider :: string
  model :: string
  input_tokens :: int
  output_tokens :: int
  cost :: rat

record cost_tracker =
  requests :: "priced_request list"
  total_cost :: rat

datatype tracker_error = ConfigurationError | BudgetExceeded

text \<open>The price table, provider and model to the prices per 1000 input and output tokens.\<close>

type_synonym price_table = "string \<times> string \<Rightarrow> (rat \<times> rat) option"

text \<open>
  Modelled from the spec: a new tracker, with an empty log and a total of zero
  (\<^verbatim>\<open>test_track_request\<close> finds one request and the cost of that request after the first call).
\<close>

definition CostTracker :: cost_tracker where
  "CostTracker = \<lparr>requests = [], total_cost = 0\<rparr>"

text \<open>
  Modelled from the spec: \<^verbatim>\<open>track_request\<close> of the cost tracker, whose code is missing. It
  looks the prices up, fails with a configuration error for an unknown provider and model,
  computes \<^verbatim>\<open>input_tokens/1000 * in_rate + output_tokens/1000 * out_rate\<close>, appends the priced
  request to the log, increments the running total and returns the cost. Costs are exact
  rationals here.
\<close>

definition track_request ::
  "price_table \<Rightarrow> string \<Rightarrow> string \<Rightarrow> int \<Rightarrow> int \<Rightarrow> cost_tracker \<Rightarrow>
     tracker_error + rat \<times> cost_tracker" where
  "track_request prices prov mdl inp outp tracker =
     (case prices (prov, mdl) of
        None \<Rightarrow> Inl ConfigurationError
      | Some (in_rate, out_rate) \<Rightarrow>
          (let c = of_int inp / 1000 * in_rate + of_int outp / 1000 * out_rate
           in Inr (c, \<lparr>requests = requests tracker @
                          [\<lparr>provider = prov, model = mdl, input_tokens = inp,
                            output_tokens = outp, cost = c\<rparr>],
                        total_cost = total_cost tracker + c\<rparr>)))"

text \<open>
  Modelled from the spec: \<^verbatim>\<open>check_budget\<close> of the cost tracker, whose code is missing. It
  fails with a budget-exceeded error when the running total strictly exceeds the ceiling,
  and does nothing otherwise.
\<close>

definition check_budget :: "rat \<Rightarrow> cost_tracker \<Rightarrow> tracker_error + cost_tracker" where
  "check_budget budget tracker =
     (if total_cost tracker > budget then Inl BudgetExceeded else Inr tracker)"

text \<open>
  Modelled from the spec: a sequence of \<^verbatim>\<open>track_request\<close> calls on one tracker, each given
  by provider, model and the two token counts; a call that fails leaves the tracker as it was.
\<close>

fun track_requests ::
  "price_table \<Rightarrow> (string \<times> string \<times> int \<times> int) list \<Rightarrow> cost_tracker \<Rightarrow> cost_tracker" where
  "track_requests prices [] tracker = tracker"
| "track_requests prices ((prov, mdl, inp, outp) # calls) tracker =
     (case track_request prices prov mdl inp outp tracker of
        Inl e \<Rightarrow> track_requests prices calls tracker
      | Inr (c, tracker') \<Rightarrow> track_requests prices calls tracker')"


section \<open>Rate limiter\<close>

text \<open>
  The rate limiter belongs to \<^verbatim>\<open>LLMProviders\<close>, whose code is missing; \<^verbatim>\<open>config.py\<close> has the
  requests per minute of each provider. Time is a rational number of seconds.
\<close>

text \<open>
  \<^verbatim>\<open>Config.OPENAI_RPM\<close>, \<^verbatim>\<open>Config.COHERE_RPM\<close> and \<^verbatim>\<open>Config.NEWS_API_RPM\<close> of \<^verbatim>\<open>config.py\<close>, by
  provider name; a name with no limit configured has none here (0).
\<close>

definition Config_rpm :: "string \<Rightarrow> nat" where
  "Config_rpm p =
     (if p = ''openai'' then 500 else if p = ''cohere'' then 100
      else if p = ''news_api'' then 100 else 0)"

text \<open>
  Modelled from the spec: the state of the rate limiter, the time of the last call of each
  provider, and the minimum spacing \<^verbatim>\<open>60 / requests_per_minute\<close> seconds. (With 0 requests per
  minute the division raises in Python; the properties below are stated for a positive limit.)
\<close>

type_synonym limiter_state = "string \<Rightarrow> rat"

definition min_interval :: "(string \<Rightarrow> nat) \<Rightarrow> string \<Rightarrow> rat" where
  "min_interval rpm p = 60 / of_nat (rpm p)"

text \<open>
  Modelled from the spec: the enforcement before a call of provider \<open>p\<close> by a task that
  enters at time \<open>now\<close>. It computes the time elapsed since the last call of \<open>p\<close>; if that is
  less than the minimum spacing the task is suspended for the remainder; the time at which the
  call proceeds becomes the last-call time. Read, wait computation and update are one critical
  section, so the enforcement is one atomic step on the state; it gives the time at which the
  call starts.
\<close>

definition enforce_rate_limit ::
  "(string \<Rightarrow> nat) \<Rightarrow> string \<Rightarrow> rat \<Rightarrow> limiter_state \<Rightarrow> rat \<times> limiter_state" where
  "enforce_rate_limit rpm p now last_call =
     (let elapsed = now - last_call p;
          start = (if elapsed < min_interval rpm p
                   then now + (min_interval rpm p - elapsed) else now)
      in (start, last_call(p := start)))"

text \<open>
  Modelled from the spec: the enforcements of concurrent tasks, in the order in which they
  enter the critical section, each given by its provider and its time of entry. The times of
  entry are arbitrary: a task may enter while an earlier one is still suspended.
\<close>

fun enforce_all ::
  "(string \<Rightarrow> nat) \<Rightarrow> (string \<times> rat) list \<Rightarrow> limiter_state \<Rightarrow> rat list \<times> limiter_state" where
  "enforce_all rpm [] last_call = ([], last_call)"
| "enforce_all rpm ((p, now) # calls) last_call =
     (case enforce_rate_limit rpm p now last_call of
        (start, last_call') \<Rightarrow>
          (case enforce_all rpm calls last_call' of
             (starts, last_call'') \<Rightarrow> (start # starts, last_call'')))"


section \<open>Notions for the properties of the concurrent batch\<close>

text \<open>The provider calls that all tasks together may still make.\<close>

definition total_remaining :: "phase list \<Rightarrow> nat" where
  "total_remaining ps = sum_list (map remaining_calls ps)"



text \<open>
  The outcomes and the final state when the tasks, each from the phase it is in, are run to
  their end one after the other in input order.
\<close>

fun finish_in_order ::
  "'w llm_providers \<Rightarrow> article list \<Rightarrow> phase list \<Rightarrow> 'w \<Rightarrow> (exn + summary_result) list \<times> 'w" where
  "finish_in_order llm (article # articles) (p # ps) w =
     (case task_finish llm article p w of
        (outcome, w') \<Rightarrow>
          (case finish_in_order llm articles ps w' of
             (outcomes, w'') \<Rightarrow> (outcome # outcomes, w'')))"
| "finish_in_order llm articles ps w = ([], w)"

text \<open>
  The shape of the phases when there is one slot: finished tasks, then at most one task that
  has started, then waiting tasks only.
\<close>

fun one_at_a_time :: "phase list \<Rightarrow> bool" where
  "one_at_a_time [] = True"
| "one_at_a_time (Finished outcome # ps) = one_at_a_time ps"
| "one_at_a_time (p # ps) = (\<forall>q \<in> set ps. q = Waiting)"


section \<open>Test doubles\<close>

text \<open>
  The article of \<^verbatim>\<open>test_summarize_article\<close>, and providers in the manner of its mocks: the
  shared state counts the provider calls made so far, OpenAI answers \<^verbatim>\<open>Test summary\<close> and Cohere
  \<^verbatim>\<open>Positive sentiment\<close>, and each raises at the call numbers listed for it.
\<close>

definition test_article :: article where
  "test_article =
     \<lparr>article.title = ''Test Article'', description = ''Test description'',
      content = ''Test content'', article.url = ''https://example.com'',
      article.source = ''Test Source'', article.published_at = ''2026-01-19''\<rparr>"

definition mock_llm :: "nat list \<Rightarrow> nat list \<Rightarrow> nat llm_providers" where
  "mock_llm openai_down cohere_down =
     \<lparr>ask_openai = (\<lambda>prompt n.
        (if n \<in> set openai_down then Inl (Exception ''openai down'')
         else Inr ''Test summary'', Suc n)),
      ask_cohere = (\<lambda>prompt n.
        (if n \<in> set cohere_down then Inl (Exception ''cohere down'')
         else Inr ''Positive sentiment'', Suc n))\<rparr>"

definition test_prices :: price_table where
  "test_prices = [(''openai'', ''gpt-4o-mini'') \<mapsto> (3 / 20000, 3 / 5000)]"

definition test_articles :: "article list" where
  "test_articles =
     [test_article\<lparr>article.title := ''First''\<rparr>,
      test_article\<lparr>article.title := ''Second''\<rparr>,
      test_article\<lparr>article.title := ''Third''\<rparr>]"

definition test_result :: "string \<Rightarrow> summary_result" where
  "test_result t =
     \<lparr>title = t, source = ''Test Source'', url = ''https://example.com'',
      summary = ''Test summary'', sentiment = ''Positive sentiment'',
      published_at = ''2026-01-19''\<rparr>"


section \<open>Properties of the pipeline for one article\<close>

text \<open>
  Claim C1. When the summary request to OpenAI raises and the request to Cohere with the same
  summary prompt returns text, \<^verbatim>\<open>summarize_article\<close> goes on to the sentiment request for
  that text and returns a result whose summary is Cohere's text; when the Cohere request
  raises too, \<^verbatim>\<open>summarize_article\<close> raises that exception.
\<close>

theorem summarize_article_fallback:
  "ask_openai llm (summary_prompt article) w = (Inl e, wa) \<Longrightarrow>
     (ask_cohere llm (summary_prompt article) wa = (Inr s, wb) \<longrightarrow>
      ask_cohere llm (sentiment_prompt s) wb = (answer, wc) \<longrightarrow>
        (\<exists>result. summarize_article llm article w = (Inr result, wc) \<and>
                  summary result = s \<and>
                  sentiment result =
                    (case answer of Inr t \<Rightarrow> t | Inl x \<Rightarrow> ''Unable to analyze sentiment''))) \<and>
     (ask_cohere llm (summary_prompt article) wa = (Inl e', wb) \<longrightarrow>
        summarize_article llm article w = (Inl e', wb))"
  by (simp add: summarize_article_def)

theorem summarize_article_fallback_witness:
  "(\<exists>result. summarize_article (mock_llm [0] []) test_article 0 = (Inr result, 3) \<and>
             summary result = ''Positive sentiment'' \<and>
             sentiment result = ''Positive sentiment'') \<and>
   summarize_article (mock_llm [0] [1]) test_article 0 = (Inl (Exception ''cohere down''), 2)"
proof -
  have a1: "ask_openai (mock_llm [0] []) (summary_prompt test_article) 0 =
              (Inl (Exception ''openai down''), 1)"
    by (simp add: mock_llm_def)
  have a2: "ask_cohere (mock_llm [0] []) (summary_prompt test_article) 1 =
              (Inr ''Positive sentiment'', 2)"
    by (simp add: mock_llm_def)
  have a3: "ask_cohere (mock_llm [0] []) (sentiment_prompt ''Positive sentiment'') 2 =
              (Inr ''Positive sentiment'', 3)"
    by (simp add: mock_llm_def)
  have b1: "ask_openai (mock_llm [0] [1]) (summary_prompt test_article) 0 =
              (Inl (Exception ''openai down''), 1)"
    by (simp add: mock_llm_def)
  have b2: "ask_cohere (mock_llm [0] [1]) (summary_prompt test_article) 1 =
              (Inl (Exception ''cohere down''), 2)"
    by (simp add: mock_llm_def)
  from summarize_article_fallback [OF a1,
      where s = "''Positive sentiment''" and wb = 2 and answer = "Inr ''Positive sentiment''"
        and wc = 3] a2 a3
  have s: "\<exists>result. summarize_article (mock_llm [0] []) test_article 0 = (Inr result, 3) \<and>
             summary result = ''Positive sentiment'' \<and>
             sentiment result = ''Positive sentiment''"
    by simp
  from summarize_article_fallback [OF b1, where e' = "Exception ''cohere down''" and wb = 2] b2
  have f: "summarize_article (mock_llm [0] [1]) test_article 0 =
             (Inl (Exception ''cohere down''), 2)"
    by blast
  from s f show ?thesis by blast
qed

text \<open>
  Claim C2. When the summary stage has produced a text (from OpenAI, or from Cohere after
  OpenAI raised) and the sentiment request raises, \<^verbatim>\<open>summarize_article\<close> returns the complete
  result, with the sentiment \<^verbatim>\<open>Unable to analyze sentiment\<close>.
\<close>

theorem summarize_article_sentiment_failure:
  assumes "ask_openai llm (summary_prompt article) w = (Inr s, wb) \<or>
           (\<exists>e wa. ask_openai llm (summary_prompt article) w = (Inl e, wa) \<and>
                    ask_cohere llm (summary_prompt article) wa = (Inr s, wb))"
      and "ask_cohere llm (sentiment_prompt s) wb = (Inl e', wc)"
  shows "summarize_article llm article w =
           (Inr \<lparr>title = article.title article, source = article.source article,
                 url = article.url article, summary = s,
                 sentiment = ''Unable to analyze sentiment'',
                 published_at = article.published_at article\<rparr>, wc)"
  using assms by (auto simp: summarize_article_def)

theorem summarize_article_sentiment_failure_witness:
  "summarize_article (mock_llm [] [1]) test_article 0 =
     (Inr ((test_result ''Test Article'')\<lparr>sentiment := ''Unable to analyze sentiment''\<rparr>), 2)"
proof -
  have a: "ask_openai (mock_llm [] [1]) (summary_prompt test_article) 0 =
             (Inr ''Test summary'', 1)"
    by (simp add: mock_llm_def)
  have b: "ask_cohere (mock_llm [] [1]) (sentiment_prompt ''Test summary'') 1 =
             (Inl (Exception ''cohere down''), 2)"
    by (simp add: mock_llm_def)
  from summarize_article_sentiment_failure [OF disjI1 [OF a] b]
  show ?thesis by (simp add: test_article_def test_result_def)
qed

text \<open>
  Claim C7. Whenever the summary stage produces a text (OpenAI's, or Cohere's after OpenAI
  raised), \<^verbatim>\<open>summarize_article\<close> returns a result, made of the title, source, url and
  publication time of the article, that text, and the answer to the sentiment request for that
  text (or the fixed string when that request raised); every result it returns is of this
  form; and after the call, whatever its outcome, the article is what it was.
\<close>

theorem summarize_article_result:
  "(\<forall>s wb answer wc.
      (ask_openai llm (summary_prompt article) w = (Inr s, wb) \<or>
       (\<exists>e wa. ask_openai llm (summary_prompt article) w = (Inl e, wa) \<and>
                ask_cohere llm (summary_prompt article) wa = (Inr s, wb))) \<longrightarrow>
      ask_cohere llm (sentiment_prompt s) wb = (answer, wc) \<longrightarrow>
      summarize_article llm article w =
        (Inr \<lparr>title = article.title article, source = article.source article,
              url = article.url article, summary = s,
              sentiment = (case answer of Inr t \<Rightarrow> t
                           | Inl e \<Rightarrow> ''Unable to analyze sentiment''),
              published_at = article.published_at article\<rparr>, wc)) \<and>
   (\<forall>result w'.
      summarize_article llm article w = (Inr result, w') \<longrightarrow>
      (\<exists>s wb answer.
         (ask_openai llm (summary_prompt article) w = (Inr s, wb) \<or>
          (\<exists>e wa. ask_openai llm (summary_prompt article) w = (Inl e, wa) \<and>
                   ask_cohere llm (summary_prompt article) wa = (Inr s, wb))) \<and>
         ask_cohere llm (sentiment_prompt s) wb = (answer, w') \<and>
         result = \<lparr>title = article.title article, source = article.source article,
                   url = article.url article, summary = s,
                   sentiment = (case answer of Inr t \<Rightarrow> t
                                | Inl e \<Rightarrow> ''Unable to analyze sentiment''),
                   published_at = article.published_at article\<rparr>)) \<and>
   summarize_article_call llm article w =
     (fst (summarize_article llm article w), article, snd (summarize_article llm article w))"
proof (intro conjI allI impI)
  fix s wb answer wc
  assume "ask_openai llm (summary_prompt article) w = (Inr s, wb) \<or>
       (\<exists>e wa. ask_openai llm (summary_prompt article) w = (Inl e, wa) \<and>
                ask_cohere llm (summary_prompt article) wa = (Inr s, wb))"
    and "ask_cohere llm (sentiment_prompt s) wb = (answer, wc)"
  then show "summarize_article llm article w =
        (Inr \<lparr>title = article.title article, source = article.source article,
              url = article.url article, summary = s,
              sentiment = (case answer of Inr t \<Rightarrow> t
                           | Inl e \<Rightarrow> ''Unable to analyze sentiment''),
              published_at = article.published_at article\<rparr>, wc)"
    by (auto simp: summarize_article_def)
next
  fix result w'
  assume "summarize_article llm article w = (Inr result, w')"
  then show "\<exists>s wb answer.
         (ask_openai llm (summary_prompt article) w = (Inr s, wb) \<or>
          (\<exists>e wa. ask_openai llm (summary_prompt article) w = (Inl e, wa) \<and>
                   ask_cohere llm (summary_prompt article) wa = (Inr s, wb))) \<and>
         ask_cohere llm (sentiment_prompt s) wb = (answer, w') \<and>
         result = \<lparr>title = article.title article, source = article.source article,
                   url = article.url article, summary = s,
                   sentiment = (case answer of Inr t \<Rightarrow> t
                                | Inl e \<Rightarrow> ''Unable to analyze sentiment''),
                   published_at = article.published_at article\<rparr>"
    by (auto simp: summarize_article_def split: prod.splits sum.splits)
next
  show "summarize_article_call llm article w =
     (fst (summarize_article llm article w), article, snd (summarize_article llm article w))"
    by (simp add: summarize_article_call_def split: prod.splits)
qed

theorem summarize_article_result_witness:
  "ask_openai (mock_llm [] []) (summary_prompt test_article) 0 = (Inr ''Test summary'', 1) \<and>
   ask_cohere (mock_llm [] []) (sentiment_prompt ''Test summary'') 1 =
     (Inr ''Positive sentiment'', 2) \<and>
   summarize_article (mock_llm [] []) test_article 0 = (Inr (test_result ''Test Article''), 2) \<and>
   summarize_article_call (mock_llm [] []) test_article 0 =
     (Inr (test_result ''Test Article''), test_article, 2)"
proof -
  have a: "ask_openai (mock_llm [] []) (summary_prompt test_article) 0 =
             (Inr ''Test summary'', 1)"
    by (simp add: mock_llm_def)
  have b: "ask_cohere (mock_llm [] []) (sentiment_prompt ''Test summary'') 1 =
             (Inr ''Positive sentiment'', 2)"
    by (simp add: mock_llm_def)
  note t = summarize_article_result [of "mock_llm [] []" test_article 0]
  from t [THEN conjunct1, rule_format, OF disjI1 [OF a] b]
  have r: "summarize_article (mock_llm [] []) test_article 0 =
             (Inr (test_result ''Test Article''), 2)"
    by (simp add: test_article_def test_result_def)
  from t [THEN conjunct2, THEN conjunct2]
  have "summarize_article_call (mock_llm [] []) test_article 0 =
     (fst (summarize_article (mock_llm [] []) test_article 0), test_article,
      snd (summarize_article (mock_llm [] []) test_article 0))" .
  then have c: "summarize_article_call (mock_llm [] []) test_article 0 =
     (Inr (test_result ''Test Article''), test_article, 2)"
    by (simp only: r fst_conv snd_conv)
  from a b r c show ?thesis by (intro conjI)
qed


section \<open>Properties of the sequential batch\<close>

lemma process_articles_loop_outcomes:
  "process_articles_loop llm articles results w =
     (results @ successes (fst (pipeline_outcomes llm articles w)),
      snd (pipeline_outcomes llm articles w))"
  by (induction articles arbitrary: results w) (auto split: prod.splits sum.splits)

lemma length_pipeline_outcomes:
  "length (fst (pipeline_outcomes llm articles w)) = length articles"
proof (induction articles arbitrary: w)
  case Nil
  show ?case by simp
next
  case (Cons a articles)
  obtain outcome w' where s: "summarize_article llm a w = (outcome, w')"
    by (cases "summarize_article llm a w")
  obtain outcomes w'' where p: "pipeline_outcomes llm articles w' = (outcomes, w'')"
    by (cases "pipeline_outcomes llm articles w'")
  from Cons.IH [of w'] p have "length outcomes = length articles" by simp
  with s p show ?case by simp
qed

lemma successes_all_failed:
  "\<forall>outcome \<in> set outcomes. isl outcome \<Longrightarrow> successes outcomes = []"
  by (induction outcomes rule: successes.induct) auto

lemma process_articles_outcomes:
  "process_articles llm articles w =
     (successes (fst (pipeline_outcomes llm articles w)),
      snd (pipeline_outcomes llm articles w))"
  by (simp add: process_articles_def process_articles_loop_outcomes)

text \<open>
  Claim C3. \<^verbatim>\<open>process_articles\<close> returns the results of the articles whose pipeline did not
  raise, in input order, one outcome being decided per article and the loop going on after
  an article that failed. With three articles of which only the second fails, the result is
  the two results of the first and the third; when every article fails, the result is the
  empty list. The function has no way of raising.
\<close>

theorem process_articles_successes:
  "process_articles llm articles w =
     (successes (fst (pipeline_outcomes llm articles w)),
      snd (pipeline_outcomes llm articles w)) \<and>
   length (fst (pipeline_outcomes llm articles w)) = length articles \<and>
   (\<forall>a1 a2 a3 r1 e r3 w'. articles = [a1, a2, a3] \<longrightarrow>
      pipeline_outcomes llm articles w = ([Inr r1, Inl e, Inr r3], w') \<longrightarrow>
      process_articles llm articles w = ([r1, r3], w')) \<and>
   ((\<forall>outcome \<in> set (fst (pipeline_outcomes llm articles w)). isl outcome) \<longrightarrow>
      fst (process_articles llm articles w) = [])"
  by (simp add: process_articles_def process_articles_loop_outcomes length_pipeline_outcomes
      successes_all_failed)

theorem process_articles_successes_witness:
  "process_articles (mock_llm [2] [3]) test_articles 0 =
     ([test_result ''First'', test_result ''Third''], 6) \<and>
   process_articles (mock_llm [0, 2, 4] [1, 3, 5]) test_articles 0 = ([], 6)"
proof -
  have o1: "pipeline_outcomes (mock_llm [2] [3]) test_articles 0 =
              ([Inr (test_result ''First''), Inl (Exception ''cohere down''),
                Inr (test_result ''Third'')], 6)"
    by (simp add: test_articles_def summarize_article_def mock_llm_def test_article_def
        test_result_def)
  have o2: "pipeline_outcomes (mock_llm [0, 2, 4] [1, 3, 5]) test_articles 0 =
              ([Inl (Exception ''cohere down''), Inl (Exception ''cohere down''),
                Inl (Exception ''cohere down'')], 6)"
    by (simp add: test_articles_def summarize_article_def mock_llm_def test_article_def)
  from process_articles_successes [of "mock_llm [2] [3]" test_articles 0] o1
  have p1: "process_articles (mock_llm [2] [3]) test_articles 0 =
              ([test_result ''First'', test_result ''Third''], 6)"
    by (simp add: test_articles_def)
  from process_articles_successes [of "mock_llm [0, 2, 4] [1, 3, 5]" test_articles 0] o2
  have p2: "process_articles (mock_llm [0, 2, 4] [1, 3, 5]) test_articles 0 = ([], 6)"
    by simp
  from p1 p2 show ?thesis by simp
qed


section \<open>Properties of the cost tracker\<close>

lemma track_request_total:
  assumes "total_cost tracker = sum_list (map cost (requests tracker))"
      and "track_request prices prov mdl inp outp tracker = Inr (c, tracker')"
  shows "total_cost tracker' = sum_list (map cost (requests tracker'))"
  using assms by (auto simp: track_request_def Let_def split: option.splits)

lemma track_requests_total:
  "total_cost tracker = sum_list (map cost (requests tracker)) \<Longrightarrow>
   total_cost (track_requests prices calls tracker) =
     sum_list (map cost (requests (track_requests prices calls tracker)))"
proof (induction prices calls tracker rule: track_requests.induct)
  case (1 prices tracker)
  then show ?case by simp
next
  case (2 prices prov mdl inp outp calls tracker)
  show ?case
  proof (cases "track_request prices prov mdl inp outp tracker")
    case (Inl e)
    with 2 show ?thesis by simp
  next
    case (Inr r)
    obtain c tracker' where r: "r = (c, tracker')" by (cases r)
    from track_request_total [OF "2.prems"] Inr r
    have "total_cost tracker' = sum_list (map cost (requests tracker'))" by simp
    with "2.IH"(2) Inr r show ?thesis by simp
  qed
qed

text \<open>
  Claim C4. A call of \<^verbatim>\<open>track_request\<close> for a provider and model of the price table computes
  the cost \<^verbatim>\<open>input_tokens/1000 * in_rate + output_tokens/1000 * out_rate\<close>, appends exactly one
  entry with that cost to the request log, increases the running total by that cost and
  returns it (whatever the sign of the token counts); and after any sequence of calls on a new
  tracker the running total is the sum of the costs in the log.
\<close>

theorem track_request_running_total:
  "(prices (prov, mdl) = Some (in_rate, out_rate) \<longrightarrow>
      (\<exists>c tracker'.
         track_request prices prov mdl inp outp tracker = Inr (c, tracker') \<and>
         c = of_int inp / 1000 * in_rate + of_int outp / 1000 * out_rate \<and>
         requests tracker' =
           requests tracker @
           [\<lparr>provider = prov, model = mdl, input_tokens = inp, output_tokens = outp,
             cost = c\<rparr>] \<and>
         total_cost tracker' = total_cost tracker + c)) \<and>
   total_cost (track_requests prices calls CostTracker) =
     sum_list (map cost (requests (track_requests prices calls CostTracker)))"
proof -
  have "total_cost CostTracker = sum_list (map cost (requests CostTracker))"
    by (simp add: CostTracker_def)
  then have "total_cost (track_requests prices calls CostTracker) =
     sum_list (map cost (requests (track_requests prices calls CostTracker)))"
    by (rule track_requests_total)
  then show ?thesis by (simp add: track_request_def Let_def)
qed

theorem track_request_running_total_witness:
  "track_request test_prices ''openai'' ''gpt-4o-mini'' 100 500 CostTracker =
     Inr (63 / 200000,
          \<lparr>requests = [\<lparr>provider = ''openai'', model = ''gpt-4o-mini'', input_tokens = 100,
                         output_tokens = 500, cost = 63 / 200000\<rparr>],
           total_cost = 63 / 200000\<rparr>) \<and>
   total_cost (track_requests test_prices
      [(''openai'', ''gpt-4o-mini'', 100, 200), (''cohere'', ''command-xlarge-2026-01'', 150, 300),
       (''openai'', ''gpt-4o-mini'', 100, 500)] CostTracker) = 9 / 20000 \<and>
   map cost (requests (track_requests test_prices
      [(''openai'', ''gpt-4o-mini'', 100, 200), (''cohere'', ''command-xlarge-2026-01'', 150, 300),
       (''openai'', ''gpt-4o-mini'', 100, 500)] CostTracker)) = [27 / 200000, 63 / 200000]"
proof -
  have p: "test_prices (''openai'', ''gpt-4o-mini'') = Some (3 / 20000, 3 / 5000)"
    by (simp add: test_prices_def)
  have l: "map cost (requests (track_requests test_prices
      [(''openai'', ''gpt-4o-mini'', 100, 200), (''cohere'', ''command-xlarge-2026-01'', 150, 300),
       (''openai'', ''gpt-4o-mini'', 100, 500)] CostTracker)) = [27 / 200000, 63 / 200000]"
    by (simp add: test_prices_def track_request_def CostTracker_def Let_def)
  from track_request_running_total [of test_prices "''openai''" "''gpt-4o-mini''"
      "3 / 20000" "3 / 5000" 100 500 CostTracker
      "[(''openai'', ''gpt-4o-mini'', 100, 200), (''cohere'', ''command-xlarge-2026-01'', 150, 300),
        (''openai'', ''gpt-4o-mini'', 100, 500)]"] p l
  show ?thesis by (auto simp: CostTracker_def)
qed

text \<open>
  Claim C5. \<^verbatim>\<open>check_budget\<close> fails, with the budget-exceeded error and no other, exactly when
  the running total is strictly above the ceiling; when the total is equal to the ceiling or
  below, it succeeds and the tracker is as it was.
\<close>

theorem check_budget_strict:
  "(check_budget budget tracker = Inl BudgetExceeded \<longleftrightarrow> total_cost tracker > budget) \<and>
   (total_cost tracker \<le> budget \<longrightarrow> check_budget budget tracker = Inr tracker) \<and>
   (\<forall>e. check_budget budget tracker = Inl e \<longrightarrow> e = BudgetExceeded)"
  by (auto simp: check_budget_def)

theorem check_budget_strict_witness:
  "check_budget 10 (CostTracker\<lparr>total_cost := 15\<rparr>) = Inl BudgetExceeded \<and>
   check_budget 10 (CostTracker\<lparr>total_cost := 10\<rparr>) = Inr (CostTracker\<lparr>total_cost := 10\<rparr>)"
  using check_budget_strict [of 10 "CostTracker\<lparr>total_cost := 15\<rparr>"]
        check_budget_strict [of 10 "CostTracker\<lparr>total_cost := 10\<rparr>"]
  by simp


section \<open>The concurrent batch returns\<close>

lemma task_finish_summarize:
  "task_finish llm article StageA w = summarize_article llm article w"
  by (auto simp: summarize_article_def split: prod.splits sum.splits)

lemma task_finish_step:
  "task_step llm article p w = (p', w') \<Longrightarrow>
   task_finish llm article p' w' = task_finish llm article p w"
  by (cases p) (auto split: prod.splits sum.splits)

lemma task_step_remaining:
  "in_flight p \<Longrightarrow> task_step llm article p w = (p', w') \<Longrightarrow>
   remaining_calls p' < remaining_calls p"
  by (cases p) (auto split: prod.splits sum.splits)

lemma length_acquire: "length (acquire free ps) = length ps"
  by (induction free ps rule: acquire.induct) auto

lemma length_admit: "length (admit max_concurrent ps) = length ps"
  by (simp add: admit_def length_acquire)

lemma remaining_acquire: "total_remaining (acquire free ps) = total_remaining ps"
  by (induction free ps rule: acquire.induct) (auto simp: total_remaining_def)

lemma remaining_admit: "total_remaining (admit max_concurrent ps) = total_remaining ps"
  by (simp add: admit_def remaining_acquire)

lemma in_flight_tasks_set: "set (in_flight_tasks ps) = {i. i < length ps \<and> in_flight (ps ! i)}"
  by (auto simp: in_flight_tasks_def)

lemma in_flight_tasks_empty: "in_flight_tasks ps = [] \<longleftrightarrow> (\<forall>p \<in> set ps. \<not> in_flight p)"
  by (auto simp: in_flight_tasks_def filter_empty_conv all_set_conv_all_nth)

lemma acquire_keeps_in_flight:
  "p \<in> set ps \<Longrightarrow> in_flight p \<Longrightarrow> p \<in> set (acquire free ps)"
  by (induction free ps rule: acquire.induct) auto

lemma acquire_starts_waiting:
  "Waiting \<in> set ps \<Longrightarrow> 0 < free \<Longrightarrow> \<exists>p \<in> set (acquire free ps). in_flight p"
  by (induction free ps rule: acquire.induct) auto

lemma remaining_zero: "total_remaining ps = 0 \<longleftrightarrow> (\<forall>p \<in> set ps. \<exists>outcome. p = Finished outcome)"
proof -
  have "remaining_calls p = 0 \<longleftrightarrow> (\<exists>outcome. p = Finished outcome)" for p
    by (cases p) auto
  then show ?thesis by (auto simp: total_remaining_def)
qed

lemma admit_progress:
  assumes "0 < max_concurrent" and "0 < total_remaining ps"
  shows "\<exists>p \<in> set (admit max_concurrent ps). in_flight p"
proof (cases "\<exists>p \<in> set ps. in_flight p")
  case True
  then show ?thesis unfolding admit_def using acquire_keeps_in_flight by blast
next
  case False
  then have none: "filter in_flight ps = []" by (simp add: filter_empty_conv)
  from assms(2) obtain p where p: "p \<in> set ps" "\<forall>outcome. p \<noteq> Finished outcome"
    using remaining_zero [of ps] by auto
  with False have "p = Waiting" by (cases p) auto
  with p none assms(1) show ?thesis
    unfolding admit_def using acquire_starts_waiting [of ps max_concurrent] by simp
qed

lemma remaining_update:
  assumes "i < length ps" and "remaining_calls p < remaining_calls (ps ! i)"
  shows "total_remaining (ps[i := p]) < total_remaining ps"
  using assms
proof (induction ps arbitrary: i)
  case Nil
  then show ?case by simp
next
  case (Cons q ps)
  then show ?case by (cases i) (auto simp: total_remaining_def)
qed

lemma length_sched_step:
  "length (fst (sched_step max_concurrent llm articles k (ps, w))) = length ps"
  by (auto simp: sched_step_def Let_def length_admit split: prod.splits)

lemma sched_step_remaining:
  assumes "0 < max_concurrent" and "0 < total_remaining ps"
  shows "total_remaining (fst (sched_step max_concurrent llm articles k (ps, w))) <
         total_remaining ps"
proof -
  let ?ps1 = "admit max_concurrent ps"
  let ?running = "in_flight_tasks ?ps1"
  let ?i = "?running ! (k mod length ?running)"
  from admit_progress [OF assms] have ne: "?running \<noteq> []"
    by (simp add: in_flight_tasks_empty)
  then have "?i \<in> set ?running" by simp
  then have i: "?i < length ?ps1" "in_flight (?ps1 ! ?i)"
    by (simp_all add: in_flight_tasks_set)
  obtain p w' where st: "task_step llm (articles ! ?i) (?ps1 ! ?i) w = (p, w')"
    by (cases "task_step llm (articles ! ?i) (?ps1 ! ?i) w")
  from task_step_remaining [OF i(2) st] i(1)
  have "total_remaining (?ps1[?i := p]) < total_remaining ?ps1"
    by (rule remaining_update [rotated])
  with ne st show ?thesis
    by (simp add: sched_step_def Let_def remaining_admit)
qed

lemma sched_step_remaining_le:
  "total_remaining (fst (sched_step max_concurrent llm articles k (ps, w))) \<le>
   total_remaining ps"
proof -
  let ?ps1 = "admit max_concurrent ps"
  let ?running = "in_flight_tasks ?ps1"
  let ?i = "?running ! (k mod length ?running)"
  show ?thesis
  proof (cases "?running = []")
    case True
    then show ?thesis by (simp add: sched_step_def Let_def remaining_admit)
  next
    case ne: False
    then have "?i \<in> set ?running" by simp
    then have i: "?i < length ?ps1" "in_flight (?ps1 ! ?i)"
      by (simp_all add: in_flight_tasks_set)
    obtain p w' where st: "task_step llm (articles ! ?i) (?ps1 ! ?i) w = (p, w')"
      by (cases "task_step llm (articles ! ?i) (?ps1 ! ?i) w")
    from task_step_remaining [OF i(2) st] i(1)
    have "total_remaining (?ps1[?i := p]) < total_remaining ?ps1"
      by (rule remaining_update [rotated])
    with ne st show ?thesis
      by (simp add: sched_step_def Let_def remaining_admit)
  qed
qed

lemma run_schedule_remaining:
  assumes "0 < max_concurrent"
  shows "total_remaining (fst (run_schedule max_concurrent llm articles sched (ps, w))) \<le>
         total_remaining ps - length sched"
proof (induction sched arbitrary: ps w)
  case Nil
  show ?case by simp
next
  case (Cons k sched)
  obtain ps' w' where s: "sched_step max_concurrent llm articles k (ps, w) = (ps', w')"
    by (cases "sched_step max_concurrent llm articles k (ps, w)")
  have "total_remaining ps' \<le> total_remaining ps - 1"
  proof (cases "0 < total_remaining ps")
    case True
    from sched_step_remaining [OF assms True, of llm articles k w] s show ?thesis by simp
  next
    case False
    with sched_step_remaining_le [of max_concurrent llm articles k ps w] s show ?thesis by simp
  qed
  with Cons.IH [of ps' w'] s show ?case by simp
qed

lemma length_run_schedule:
  "length (fst (run_schedule max_concurrent llm articles sched (ps, w))) = length ps"
proof (induction sched arbitrary: ps w)
  case Nil
  show ?case by simp
next
  case (Cons k sched)
  obtain ps' w' where s: "sched_step max_concurrent llm articles k (ps, w) = (ps', w')"
    by (cases "sched_step max_concurrent llm articles k (ps, w)")
  with length_sched_step [of max_concurrent llm articles k ps w] have "length ps' = length ps"
    by simp
  with Cons.IH [of ps' w'] s show ?case by simp
qed

lemma gather_Some_iff: "(\<exists>results. gather ps = Some results) \<longleftrightarrow> total_remaining ps = 0"
  by (induction ps rule: gather.induct) (auto simp: total_remaining_def)

lemma gather_length: "gather ps = Some results \<Longrightarrow> length results = length ps"
  by (induction ps arbitrary: results rule: gather.induct) auto

lemma remaining_replicate: "total_remaining (replicate n Waiting) = 3 * n"
  by (induction n) (auto simp: total_remaining_def)

lemma run_tasks_returns:
  assumes "0 < max_concurrent" and "3 * length articles \<le> length sched"
  shows "\<exists>results w'. run_tasks max_concurrent llm articles sched w = Some (results, w')"
proof -
  obtain ps w' where r: "run_schedule max_concurrent llm articles sched
      (replicate (length articles) Waiting, w) = (ps, w')"
    by (cases "run_schedule max_concurrent llm articles sched
      (replicate (length articles) Waiting, w)")
  from run_schedule_remaining [OF assms(1), of llm articles sched
      "replicate (length articles) Waiting" w] r assms(2)
  have "total_remaining ps = 0" by (simp add: remaining_replicate)
  then obtain results where "gather ps = Some results"
    using gather_Some_iff by blast
  with r show ?thesis by (simp add: run_tasks_def)
qed


section \<open>The concurrent batch keeps the input order\<close>





lemma gather_Some: "gather ps = Some results \<longleftrightarrow> ps = map Finished results"
  by (induction ps arbitrary: results rule: gather.induct) auto






section \<open>One slot is the sequential batch\<close>

lemma in_flight_tasks_Cons:
  "in_flight_tasks (p # ps) =
     (if in_flight p then [0] else []) @ map Suc (in_flight_tasks ps)"
proof -
  have "[0..<Suc (length ps)] = 0 # map Suc [0..<length ps]"
    by (simp add: upt_conv_Cons map_Suc_upt del: upt_Suc)
  then show ?thesis
    by (simp add: in_flight_tasks_def filter_map comp_def del: upt_Suc)
qed

lemma admit_Finished_Cons:
  "admit max_concurrent (Finished outcome # ps) = Finished outcome # admit max_concurrent ps"
  by (simp add: admit_def)

lemma sched_step_Finished_Cons:
  "sched_step max_concurrent llm (article # articles) k (Finished outcome # ps, w) =
     (case sched_step max_concurrent llm articles k (ps, w) of
        (ps', w') \<Rightarrow> (Finished outcome # ps', w'))"
proof -
  let ?ps1 = "admit max_concurrent ps"
  let ?running = "in_flight_tasks ?ps1"
  show ?thesis
  proof (cases "?running = []")
    case True
    then show ?thesis
      by (simp add: sched_step_def Let_def admit_Finished_Cons in_flight_tasks_Cons)
  next
    case False
    then have "k mod length ?running < length ?running" by simp
    then have "map Suc ?running ! (k mod length ?running) =
                 Suc (?running ! (k mod length ?running))"
      by (rule nth_map)
    with False show ?thesis
      by (simp add: sched_step_def Let_def admit_Finished_Cons in_flight_tasks_Cons
          split: prod.splits)
  qed
qed

lemma acquire_none: "acquire 0 ps = ps"
  by (induction "0::nat" ps rule: acquire.induct) auto

lemma waiting_not_in_flight:
  "\<forall>q \<in> set ps. q = Waiting \<Longrightarrow> filter in_flight ps = []"
  by (induction ps) auto

lemma waiting_one_at_a_time: "\<forall>q \<in> set ps. q = Waiting \<Longrightarrow> one_at_a_time ps"
  by (cases ps) auto

lemma sched_step_head:
  assumes "\<forall>q \<in> set ps. q = Waiting" and "\<forall>outcome. p \<noteq> Finished outcome"
  shows "sched_step 1 llm (article # articles) k (p # ps, w) =
           (case task_step llm article (if p = Waiting then StageA else p) w of
              (p', w') \<Rightarrow> (p' # ps, w'))"
proof -
  define q where "q = (if p = Waiting then StageA else p)"
  from assms(1) have f: "filter in_flight ps = []" by (rule waiting_not_in_flight)
  then have t: "in_flight_tasks ps = []"
    by (simp add: in_flight_tasks_empty filter_empty_conv)
  from assms(2) f have a: "admit (Suc 0) (p # ps) = q # ps"
    by (cases p) (simp_all add: admit_def acquire_none q_def)
  from assms(2) have "in_flight q"
    by (cases p) (simp_all add: q_def)
  with t have r: "in_flight_tasks (q # ps) = [0]"
    by (simp add: in_flight_tasks_Cons)
  have "sched_step 1 llm (article # articles) k (p # ps, w) =
           (case task_step llm article q w of (p', w') \<Rightarrow> (p' # ps, w'))"
    by (simp add: sched_step_def Let_def a r split: prod.splits)
  then show ?thesis by (simp only: q_def)
qed

lemma one_at_a_time_step:
  assumes "one_at_a_time ps" and "length articles = length ps"
      and "sched_step 1 llm articles k (ps, w) = (ps', w')"
  shows "one_at_a_time ps' \<and>
         finish_in_order llm articles ps' w' = finish_in_order llm articles ps w"
  using assms
proof (induction ps arbitrary: articles ps' w')
  case Nil
  then show ?case
    by (simp add: sched_step_def admit_def in_flight_tasks_def)
next
  case (Cons p ps)
  from Cons.prems(2) obtain article rest where articles: "articles = article # rest"
    by (cases articles) auto
  show ?case
  proof (cases "\<exists>outcome. p = Finished outcome")
    case True
    then obtain outcome where p: "p = Finished outcome" by blast
    obtain qs v where s: "sched_step 1 llm rest k (ps, w) = (qs, v)"
      by (cases "sched_step 1 llm rest k (ps, w)")
    from Cons.prems(3) s have r: "ps' = Finished outcome # qs" "w' = v"
      by (simp_all add: articles p sched_step_Finished_Cons)
    from Cons.prems(1,2) have "one_at_a_time ps" "length rest = length ps"
      by (simp_all add: p articles)
    from Cons.IH [OF this s]
    show ?thesis by (simp add: r p articles)
  next
    case False
    then have nf: "\<forall>outcome. p \<noteq> Finished outcome" by blast
    with Cons.prems(1) have waiting: "\<forall>q \<in> set ps. q = Waiting"
      by (cases p) simp_all
    obtain p' v where t: "task_step llm article (if p = Waiting then StageA else p) w = (p', v)"
      by (cases "task_step llm article (if p = Waiting then StageA else p) w")
    from sched_step_head [OF waiting nf, of llm article rest k w] Cons.prems(3) t
    have r: "ps' = p' # ps" "w' = v"
      by (simp_all add: articles)
    from waiting have shape: "one_at_a_time (p' # ps)"
      by (cases p') (simp_all add: waiting_one_at_a_time)
    from task_finish_step [OF t]
    have "task_finish llm article p' v = task_finish llm article p w"
      by (cases "p = Waiting") simp_all
    with shape show ?thesis by (simp add: r articles)
  qed
qed

lemma one_at_a_time_run:
  assumes "one_at_a_time ps" and "length articles = length ps"
      and "run_schedule 1 llm articles sched (ps, w) = (ps', w')"
  shows "finish_in_order llm articles ps' w' = finish_in_order llm articles ps w"
  using assms
proof (induction sched arbitrary: ps w)
  case Nil
  then show ?case by simp
next
  case (Cons k sched)
  obtain qs v where s: "sched_step 1 llm articles k (ps, w) = (qs, v)"
    by (cases "sched_step 1 llm articles k (ps, w)")
  from one_at_a_time_step [OF Cons.prems(1,2) s]
  have q: "one_at_a_time qs"
    and f: "finish_in_order llm articles qs v = finish_in_order llm articles ps w"
    by simp_all
  from length_sched_step [of 1 llm articles k ps w] s Cons.prems(2)
  have "length articles = length qs" by simp
  from Cons.IH [OF q this] Cons.prems(3) s f show ?case by simp
qed

lemma finish_in_order_waiting:
  "finish_in_order llm articles (replicate (length articles) Waiting) w =
     pipeline_outcomes llm articles w"
  by (induction articles arbitrary: w)
     (simp_all add: task_finish_summarize del: task_finish.simps(3))

lemma finish_in_order_finished:
  "length articles = length outcomes \<Longrightarrow>
   finish_in_order llm articles (map Finished outcomes) w = (outcomes, w)"
  by (induction articles outcomes rule: list_induct2) simp_all

lemma run_tasks_one_at_a_time:
  assumes "run_tasks 1 llm articles sched w = Some (outcomes, w')"
  shows "(outcomes, w') = pipeline_outcomes llm articles w"
proof -
  obtain ps v where r: "run_schedule 1 llm articles sched
      (replicate (length articles) Waiting, w) = (ps, v)"
    by (cases "run_schedule 1 llm articles sched (replicate (length articles) Waiting, w)")
  from assms r have ps: "ps = map Finished outcomes" and v: "v = w'"
    by (auto simp: run_tasks_def gather_Some)
  from length_run_schedule [of 1 llm articles sched "replicate (length articles) Waiting" w] r ps
  have len: "length articles = length outcomes" by simp
  have "one_at_a_time (replicate (length articles) Waiting)"
    by (rule waiting_one_at_a_time) simp
  from one_at_a_time_run [OF this _ r]
  have "finish_in_order llm articles ps v = pipeline_outcomes llm articles w"
    by (simp add: finish_in_order_waiting)
  with ps v len show ?thesis by (simp add: finish_in_order_finished)
qed

text \<open>
  Claim C8. With \<^verbatim>\<open>max_concurrent = 1\<close>, whenever \<^verbatim>\<open>process_articles_async\<close> returns, the
  outcomes of the tasks (results and exceptions) are those of the articles processed one after
  the other in input order, and the value returned and the final state are those of
  \<^verbatim>\<open>process_articles\<close>: the same results in the same order, the same articles dropped. It
  does return under every schedule of three steps per article.
\<close>

theorem process_articles_async_one_at_a_time:
  "(\<forall>x. process_articles_async llm articles 1 sched w = Some x \<longrightarrow>
      run_tasks 1 llm articles sched w = Some (pipeline_outcomes llm articles w) \<and>
      x = (Inr (fst (process_articles llm articles w)), snd (process_articles llm articles w))) \<and>
   (3 * length articles \<le> length sched \<longrightarrow>
      process_articles_async llm articles 1 sched w =
        Some (Inr (fst (process_articles llm articles w)),
              snd (process_articles llm articles w)))"
proof -
  have eq: "run_tasks 1 llm articles sched w = Some (pipeline_outcomes llm articles w)"
    if "run_tasks 1 llm articles sched w = Some y" for y
    using that run_tasks_one_at_a_time [of llm articles sched w "fst y" "snd y"] by simp
  have ret: "\<exists>y. run_tasks 1 llm articles sched w = Some y"
    if "3 * length articles \<le> length sched"
    using that run_tasks_returns [of 1 articles sched llm w] by auto
  have a: "process_articles_async llm articles 1 sched w =
             map_option (\<lambda>(results, w'). (Inr (successes results), w'))
               (run_tasks 1 llm articles sched w)"
    by (simp add: process_articles_async_def)
  show ?thesis
  proof (intro conjI impI allI)
    fix x
    assume x: "process_articles_async llm articles 1 sched w = Some x"
    then obtain y where "run_tasks 1 llm articles sched w = Some y"
      by (auto simp: a)
    then show "run_tasks 1 llm articles sched w = Some (pipeline_outcomes llm articles w)"
      by (rule eq)
    with x show "x = (Inr (fst (process_articles llm articles w)),
                      snd (process_articles llm articles w))"
      by (auto simp: a process_articles_outcomes split_beta)
  next
    assume "3 * length articles \<le> length sched"
    from ret [OF this] obtain y where "run_tasks 1 llm articles sched w = Some y" ..
    from eq [OF this]
    show "process_articles_async llm articles 1 sched w =
        Some (Inr (fst (process_articles llm articles w)),
              snd (process_articles llm articles w))"
      by (simp add: a process_articles_outcomes split_beta)
  qed
qed

theorem process_articles_async_one_at_a_time_witness:
  "3 * length test_articles \<le> length [1, 0, 1, 0, 0, 7, 0, 0, 0::nat] \<and>
   process_articles_async (mock_llm [2] [3]) test_articles 1 [1, 0, 1, 0, 0, 7, 0, 0, 0] 0 =
     Some (Inr [test_result ''First'', test_result ''Third''], 6) \<and>
   process_articles (mock_llm [2] [3]) test_articles 0 =
     ([test_result ''First'', test_result ''Third''], 6)"
proof -
  have l: "3 * length test_articles \<le> length [1, 0, 1, 0, 0, 7, 0, 0, 0::nat]"
    by (simp add: test_articles_def)
  have p: "process_articles (mock_llm [2] [3]) test_articles 0 =
     ([test_result ''First'', test_result ''Third''], 6)"
    by code_simp
  from process_articles_async_one_at_a_time [of "mock_llm [2] [3]" test_articles
      "[1, 0, 1, 0, 0, 7, 0, 0, 0]" 0]
  have "3 * length test_articles \<le> length [1, 0, 1, 0, 0, 7, 0, 0, 0::nat] \<longrightarrow>
      process_articles_async (mock_llm [2] [3]) test_articles 1 [1, 0, 1, 0, 0, 7, 0, 0, 0] 0 =
        Some (Inr (fst (process_articles (mock_llm [2] [3]) test_articles 0)),
              snd (process_articles (mock_llm [2] [3]) test_articles 0))"
    by (rule conjunct2)
  with l have "process_articles_async (mock_llm [2] [3]) test_articles 1
          [1, 0, 1, 0, 0, 7, 0, 0, 0] 0 =
        Some (Inr (fst (process_articles (mock_llm [2] [3]) test_articles 0)),
              snd (process_articles (mock_llm [2] [3]) test_articles 0))"
    by (rule rev_mp)
  then have "process_articles_async (mock_llm [2] [3]) test_articles 1
          [1, 0, 1, 0, 0, 7, 0, 0, 0] 0 =
     Some (Inr [test_result ''First'', test_result ''Third''], 6)"
    by (simp only: p fst_conv snd_conv)
  with l p show ?thesis by (intro conjI)
qed


section \<open>Properties of the rate limiter\<close>

lemma enforce_rate_limit_start:
  "fst (enforce_rate_limit rpm p now last_call) = max now (last_call p + min_interval rpm p)"
  by (auto simp: enforce_rate_limit_def Let_def max_def)

lemma enforce_rate_limit_last:
  "snd (enforce_rate_limit rpm p now last_call) =
     last_call(p := fst (enforce_rate_limit rpm p now last_call))"
  by (simp add: enforce_rate_limit_def Let_def)

lemma enforce_all_other:
  "\<forall>c \<in> set calls. fst c \<noteq> p \<Longrightarrow> snd (enforce_all rpm calls last_call) p = last_call p"
proof (induction calls arbitrary: last_call)
  case Nil
  show ?case by simp
next
  case (Cons c calls)
  obtain q now where c: "c = (q, now)" by (cases c)
  with Cons.prems have q: "q \<noteq> p" and rest: "\<forall>c \<in> set calls. fst c \<noteq> p" by auto
  obtain start l' where e: "enforce_rate_limit rpm q now last_call = (start, l')"
    by (cases "enforce_rate_limit rpm q now last_call")
  with enforce_rate_limit_last [of rpm q now last_call] q have "l' p = last_call p" by simp
  with Cons.IH [OF rest, of l'] c e show ?case
    by (cases "enforce_all rpm calls l'") simp
qed

text \<open>
  Claim C9. For a provider with a positive limit, between two consecutive calls of that
  provider (whatever calls of other providers are enforced in between, and whatever the times
  at which the tasks enter), the second call starts no earlier than \<open>60 / rpm\<close> seconds after
  the start of the first; and the calls of other providers do not change the time at which a
  call of this provider starts.
\<close>

theorem rate_limit_spacing:
  assumes "0 < rpm p" and "\<forall>c \<in> set between. fst c \<noteq> p"
  shows "fst (enforce_rate_limit rpm p now1 last_call) + 60 / of_nat (rpm p) \<le>
           fst (enforce_rate_limit rpm p now2
                  (snd (enforce_all rpm between
                          (snd (enforce_rate_limit rpm p now1 last_call))))) \<and>
         fst (enforce_rate_limit rpm p now2 (snd (enforce_all rpm between last_call))) =
           fst (enforce_rate_limit rpm p now2 last_call)"
proof -
  let ?l1 = "snd (enforce_rate_limit rpm p now1 last_call)"
  have "snd (enforce_all rpm between ?l1) p = ?l1 p"
    using assms(2) by (rule enforce_all_other)
  also have "\<dots> = fst (enforce_rate_limit rpm p now1 last_call)"
    by (simp add: enforce_rate_limit_last)
  finally have a: "fst (enforce_rate_limit rpm p now1 last_call) + 60 / of_nat (rpm p) \<le>
           fst (enforce_rate_limit rpm p now2 (snd (enforce_all rpm between ?l1)))"
    by (simp add: enforce_rate_limit_start min_interval_def)
  have "snd (enforce_all rpm between last_call) p = last_call p"
    using assms(2) by (rule enforce_all_other)
  then have b: "fst (enforce_rate_limit rpm p now2 (snd (enforce_all rpm between last_call))) =
           fst (enforce_rate_limit rpm p now2 last_call)"
    by (simp add: enforce_rate_limit_start)
  from a b show ?thesis ..
qed

theorem rate_limit_spacing_witness:
  "0 < Config_rpm ''openai'' \<and>
   map fst [(''cohere'', 10), (''cohere'', 21 / 2 :: rat)] = [''cohere'', ''cohere''] \<and>
   fst (enforce_rate_limit Config_rpm ''openai'' 10 (\<lambda>p. 0)) = 10 \<and>
   fst (enforce_rate_limit Config_rpm ''openai'' 10
          (snd (enforce_all Config_rpm [(''cohere'', 10), (''cohere'', 21 / 2)]
                  (snd (enforce_rate_limit Config_rpm ''openai'' 10 (\<lambda>p. 0)))))) = 253 / 25 \<and>
   (10::rat) + 60 / of_nat (Config_rpm ''openai'') \<le> 253 / 25"
proof -
  have h: "0 < Config_rpm ''openai''" by (simp add: Config_rpm_def)
  have b: "\<forall>c \<in> set [(''cohere'', 10), (''cohere'', 21 / 2 :: rat)]. fst c \<noteq> ''openai''"
    by simp
  have s1: "fst (enforce_rate_limit Config_rpm ''openai'' 10 (\<lambda>p. 0)) = 10"
    by (simp add: enforce_rate_limit_def min_interval_def Config_rpm_def Let_def)
  have s2: "fst (enforce_rate_limit Config_rpm ''openai'' 10
          (snd (enforce_all Config_rpm [(''cohere'', 10), (''cohere'', 21 / 2)]
                  (snd (enforce_rate_limit Config_rpm ''openai'' 10 (\<lambda>p. 0)))))) = 253 / 25"
    by (simp add: enforce_rate_limit_def min_interval_def Config_rpm_def Let_def)
  from rate_limit_spacing [where rpm = Config_rpm and p = "''openai''"
      and between = "[(''cohere'', 10), (''cohere'', 21 / 2)]"
      and ?now1.0 = 10 and last_call = "\<lambda>p. 0" and ?now2.0 = 10, OF h b]
  have "fst (enforce_rate_limit Config_rpm ''openai'' 10 (\<lambda>p. 0)) +
          60 / of_nat (Config_rpm ''openai'') \<le>
        fst (enforce_rate_limit Config_rpm ''openai'' 10
          (snd (enforce_all Config_rpm [(''cohere'', 10), (''cohere'', 21 / 2)]
                  (snd (enforce_rate_limit Config_rpm ''openai'' 10 (\<lambda>p. 0))))))"
    by (rule conjunct1)
  then have "(10::rat) + 60 / of_nat (Config_rpm ''openai'') \<le> 253 / 25"
    by (simp only: s1 s2)
  moreover have "map fst [(''cohere'', 10), (''cohere'', 21 / 2 :: rat)] = [''cohere'', ''cohere'']"
    by simp
  ultimately show ?thesis using h s1 s2 by (intro conjI)
qed

end
